theory Spec2Isabelle
  imports Main "HOL-Library.Sublist"
begin

section \<open>Python strings\<close>

text \<open>
  A Python \<open>str\<close> is a sequence of Unicode code points and \<open>len\<close> counts code points.
  The source uses characters beyond one byte (the zero-width space U+200B, the emoji that
  start the user-facing messages), so a string is a list of code points, each a natural
  number. \<open>ascii\<close> lifts an ASCII literal.
\<close>

type_synonym str = "nat list"

definition ascii :: "string \<Rightarrow> str" where
  "ascii s = map of_char s"

text \<open>
  \<open>str.isspace\<close> on one code point, as \<open>str.strip()\<close> without argument uses it:
  U+0009..U+000D, U+001C..U+0020, U+0085, U+00A0, U+1680, U+2000..U+200A, U+2028, U+2029,
  U+202F, U+205F, U+3000. The zero-width space U+200B is not among them.
\<close>

definition isspace :: "nat \<Rightarrow> bool" where
  "isspace c \<longleftrightarrow>
     (9 \<le> c \<and> c \<le> 13) \<or> (28 \<le> c \<and> c \<le> 32) \<or> c = 133 \<or> c = 160 \<or> c = 5760 \<or>
     (8192 \<le> c \<and> c \<le> 8202) \<or> c = 8232 \<or> c = 8233 \<or> c = 8239 \<or> c = 8287 \<or> c = 12288"

text \<open>\<open>s.strip()\<close>: leading and trailing whitespace removed.\<close>

definition strip :: "str \<Rightarrow> str" where
  "strip s = rev (dropWhile isspace (rev (dropWhile isspace s)))"

text \<open>\<open>s.rstrip(chars)\<close>: trailing code points that occur in \<open>chars\<close> removed.\<close>

definition rstrip :: "str \<Rightarrow> str \<Rightarrow> str" where
  "rstrip chars s = rev (dropWhile (\<lambda>c. c \<in> set chars) (rev s))"

text \<open>
  \<open>s.replace(old, new)\<close>: every non-overlapping occurrence of \<open>old\<close>, found left to
  right, is replaced by \<open>new\<close>. With an empty \<open>old\<close> Python puts \<open>new\<close> before every
  code point and at the end.
\<close>

function replace :: "str \<Rightarrow> str \<Rightarrow> str \<Rightarrow> str" where
  "replace old new s =
     (if old = [] then concat (map (\<lambda>c. new @ [c]) s) @ new
      else if s = [] then []
      else if prefix old s then new @ replace old new (drop (length old) s)
      else hd s # replace old new (tl s))"
  by pat_completeness auto
termination
  by (relation "measure (\<lambda>(old, new, s). length s)") (auto simp: neq_Nil_conv)

declare replace.simps [simp del]

section \<open>Constants of the bot\<close>

definition MAX_MESSAGE_LENGTH :: nat where
  "MAX_MESSAGE_LENGTH = 2000"

definition truncation_marker :: str where
  "truncation_marker = [10, 10] @ ascii ''*[Response truncated]*''"

definition warning_sign :: str where
  "warning_sign = [9888, 65039]"

definition cross_mark :: str where
  "cross_mark = [10060]"

definition alarm_clock :: str where
  "alarm_clock = [9200]"

definition msg_ai_error :: str where
  "msg_ai_error = warning_sign @
     ascii '' Sorry, I encountered an error while analyzing the conversation. Please try again later.''"

definition msg_usage :: str where
  "msg_usage = cross_mark @ ascii '' Usage: `!schedule meet`''"

definition msg_timeout :: str where
  "msg_timeout = alarm_clock @ ascii '' Timeout while fetching messages. Please try again.''"

definition msg_no_messages :: str where
  "msg_no_messages = cross_mark @ ascii '' No messages found in this channel.''"

definition msg_no_valid :: str where
  "msg_no_valid = cross_mark @ ascii '' No valid messages found to process.''"

definition msg_trouble :: str where
  "msg_trouble = warning_sign @
     ascii '' I'' @ [39] @
     ascii ''m having trouble analyzing the conversation right now. Please try again in a moment.''"

definition msg_no_response :: str where
  "msg_no_response = warning_sign @ ascii '' I couldn'' @ [39] @
     ascii ''t generate a response. Please try again.''"

definition msg_forbidden :: str where
  "msg_forbidden = cross_mark @ ascii '' I don'' @ [39] @
     ascii ''t have permission to read message history in this channel.''"

definition msg_http :: str where
  "msg_http = cross_mark @
     ascii '' There was an issue communicating with Discord. Please try again.''"

definition msg_unexpected :: str where
  "msg_unexpected = cross_mark @
     ascii '' An unexpected error occurred. The issue has been logged.''"

text \<open>The two mass-mention tokens and their replacements (U+200B after the at sign).\<close>

definition at_everyone :: str where
  "at_everyone = ascii ''@everyone''"

definition at_here :: str where
  "at_here = ascii ''@here''"

definition at_zwsp_everyone :: str where
  "at_zwsp_everyone = ascii ''@'' @ [8203] @ ascii ''everyone''"

definition at_zwsp_here :: str where
  "at_zwsp_here = ascii ''@'' @ [8203] @ ascii ''here''"

section \<open>The recommendation client\<close>

text \<open>
  Exceptions that the modelled calls can raise. All of them are subclasses of Python's
  \<open>Exception\<close>, which is what the \<open>except Exception\<close> clauses catch; \<open>Forbidden\<close> is a
  subclass of \<open>HTTPException\<close>. Interrupts and cancellation, which derive from
  \<open>BaseException\<close> only, are outside the model.
\<close>

datatype exn = TimeoutError | Forbidden | HTTPException | AttributeError | OtherException

text \<open>What one invocation of the handler does to the outside world, in order.\<close>

datatype event =
    CtxSend str
  | ChannelSend str
  | TypingStart
  | HistoryFetch
  | ChainInvoke str
  | LogInfo
  | LogError

text \<open>
  \<open>process_schedule_request\<close>: the chain is a parameter, a function from the prompt
  variable to either the exception \<open>chain.invoke\<close> raises or the string it returns. The
  function takes the trace of events so far and returns the extended trace with its
  outcome: \<open>Inr\<close> a returned string, \<open>Inl\<close> an exception leaving the function.
\<close>

definition process_schedule_request ::
    "(str \<Rightarrow> exn + str) \<Rightarrow> str \<Rightarrow> event list \<Rightarrow> event list \<times> (exn + str)" where
  "process_schedule_request chain messages_string tr =
     (case chain messages_string of
        Inr response \<Rightarrow>
          (tr @ [ChainInvoke messages_string],
           Inr (if length response > MAX_MESSAGE_LENGTH
                then take (MAX_MESSAGE_LENGTH - 50) response @ truncation_marker
                else response))
      | Inl e \<Rightarrow> (tr @ [ChainInvoke messages_string, LogError], Inr msg_ai_error))"

section \<open>The transcript builder\<close>

text \<open>
  A fetched message, reduced to what the handler reads: the author's display name (which
  may be absent or empty), the author's account name, and the text content.
\<close>

record user =
  display_name :: "str option"
  name :: str

record message =
  author :: user
  content :: str

text \<open>\<open>message.author.display_name or message.author.name\<close>\<close>

definition username :: "message \<Rightarrow> str" where
  "username m =
     (case display_name (author m) of
        None \<Rightarrow> name (author m)
      | Some d \<Rightarrow> if d = [] then name (author m) else d)"

text \<open>The two chained \<open>replace\<close> calls of the loop body.\<close>

definition sanitize :: "str \<Rightarrow> str" where
  "sanitize c = replace at_here at_zwsp_here (replace at_everyone at_zwsp_everyone c)"

text \<open>
  The \<open>for message in messages\<close> loop, with \<open>messages_string\<close> as the accumulator.
  The length test is on the trimmed content, before the replacement.
\<close>

fun transcript_loop :: "message list \<Rightarrow> str \<Rightarrow> str" where
  "transcript_loop [] messages_string = messages_string"
| "transcript_loop (m # ms) messages_string =
     (let c = strip (content m) in
      if c \<noteq> [] \<and> length c \<le> 500
      then transcript_loop ms
             (messages_string @ username m @ ascii '': '' @ sanitize c @ [10])
      else transcript_loop ms messages_string)"

text \<open>
  From the fetched list (most recent first) to the transcript: reverse, run the loop from
  the empty string, strip trailing newlines.
\<close>

definition build_transcript :: "message list \<Rightarrow> str" where
  "build_transcript messages = rstrip [10] (transcript_loop (rev messages) [])"

text \<open>
  Three notions used to state what the loop builds. A message qualifies when it passes the
  test of the loop body; its line is what the loop then appends, without the newline;
  \<open>join\<close> is Python's \<open>sep.join(lines)\<close>.
\<close>

definition qualifies :: "message \<Rightarrow> bool" where
  "qualifies m \<longleftrightarrow> strip (content m) \<noteq> [] \<and> length (strip (content m)) \<le> 500"

definition transcript_line :: "message \<Rightarrow> str" where
  "transcript_line m = username m @ ascii '': '' @ sanitize (strip (content m))"

fun join :: "str \<Rightarrow> str list \<Rightarrow> str" where
  "join sep [] = []"
| "join sep [l] = l"
| "join sep (l # l' # ls) = l @ sep @ join sep (l' # ls)"

section \<open>The command handler\<close>

text \<open>
  What the handler meets outside itself in one invocation: whether entering the typing
  indicator raises, the outcome of the bounded history fetch (an exception, among them the
  timeout, or the messages, most recent first), the guild's name (absent in a direct
  message, where \<open>ctx.guild\<close> is \<open>None\<close>), the chain, and for each send of the invocation,
  numbered from 0, the exception it raises if any.
\<close>

record env =
  typing_raises :: "exn option"
  history :: "exn + message list"
  guild_name :: "str option"
  chain_invoke :: "str \<Rightarrow> exn + str"
  send_raises :: "nat \<Rightarrow> exn option"

fun is_send :: "event \<Rightarrow> bool" where
  "is_send (CtxSend _) = True"
| "is_send (ChannelSend _) = True"
| "is_send _ = False"

fun is_chain_invoke :: "event \<Rightarrow> bool" where
  "is_chain_invoke (ChainInvoke _) = True"
| "is_chain_invoke _ = False"

fun sent_text :: "event \<Rightarrow> str" where
  "sent_text (CtxSend t) = t"
| "sent_text (ChannelSend t) = t"
| "sent_text _ = []"

text \<open>
  One \<open>await ctx.send(..)\<close> or \<open>await channel.send(..)\<close>: the attempt is recorded, and the
  result is the exception it raises, if any.
\<close>

definition send :: "env \<Rightarrow> event \<Rightarrow> event list \<Rightarrow> event list \<times> exn option" where
  "send e ev tr = (tr @ [ev], send_raises e (length (filter is_send tr)))"

text \<open>
  The body of the outer \<open>try\<close> of \<open>schedule_meet\<close>. The result is the trace and the
  exception that leaves the body, \<open>None\<close> when it returns or falls through.
\<close>

definition schedule_body :: "env \<Rightarrow> event list \<Rightarrow> event list \<times> exn option" where
  "schedule_body e tr =
     (case history e of
        Inl ex \<Rightarrow>
          if ex = TimeoutError then send e (CtxSend msg_timeout) (tr @ [HistoryFetch])
          else (tr @ [HistoryFetch], Some ex)
      | Inr messages \<Rightarrow>
          if messages = [] then send e (CtxSend msg_no_messages) (tr @ [HistoryFetch])
          else
            let messages_string = build_transcript messages in
            if messages_string = [] then send e (CtxSend msg_no_valid) (tr @ [HistoryFetch])
            else
              (case guild_name e of
                 None \<Rightarrow> (tr @ [HistoryFetch], Some AttributeError)
               | Some g \<Rightarrow>
                   (case process_schedule_request (chain_invoke e) messages_string
                           (tr @ [HistoryFetch, LogInfo]) of
                      (tr', Inl ex) \<Rightarrow> send e (CtxSend msg_trouble) (tr' @ [LogError])
                    | (tr', Inr response) \<Rightarrow>
                        if response \<noteq> [] then send e (ChannelSend response) tr'
                        else send e (CtxSend msg_no_response) tr')))"

text \<open>
  \<open>schedule_meet\<close>: the argument check, the typing indicator, the body and the three
  \<open>except\<close> clauses of the outer \<open>try\<close> in their order. The result is the trace of the
  invocation and the exception that leaves the handler, if any.
\<close>

definition schedule_meet :: "env \<Rightarrow> str option \<Rightarrow> event list \<times> exn option" where
  "schedule_meet e action =
     (if action \<noteq> Some (ascii ''meet'') then send e (CtxSend msg_usage) []
      else
        (case typing_raises e of
           Some ex \<Rightarrow> ([TypingStart], Some ex)
         | None \<Rightarrow>
             (case schedule_body e [TypingStart] of
                (tr, None) \<Rightarrow> (tr, None)
              | (tr, Some ex) \<Rightarrow>
                  if ex = Forbidden then send e (CtxSend msg_forbidden) tr
                  else if ex = HTTPException then send e (CtxSend msg_http) (tr @ [LogError])
                  else send e (CtxSend msg_unexpected) (tr @ [LogError]))))"

text \<open>
  The events one invocation can produce: the fixed ones, any chain invocation, and a
  channel post of a non-empty text of at most 2000 code points.
\<close>

definition expected_event :: "event \<Rightarrow> bool" where
  "expected_event ev \<longleftrightarrow>
     ev \<in> {TypingStart, HistoryFetch, LogInfo, LogError, CtxSend msg_usage, CtxSend msg_timeout,
           CtxSend msg_no_messages, CtxSend msg_no_valid, CtxSend msg_no_response,
           CtxSend msg_forbidden, CtxSend msg_http, CtxSend msg_unexpected} \<or>
     (\<exists>s. ev = ChainInvoke s) \<or>
     (\<exists>r. ev = ChannelSend r \<and> r \<noteq> [] \<and> length r \<le> 2000)"

section \<open>The command error handler and the cooldown\<close>








section \<open>Example inputs\<close>

text \<open>
  Concrete messages and a concrete environment, used to instantiate the theorems:
  a message with padded content that mentions \<open>@here\<close>, a message without text (an
  attachment only), a message whose author's server nickname is \<open>@everyone\<close>, a message
  of exactly 500 code points that starts with \<open>@here\<close>, and an environment in which
  typing, the fetch and every send succeed.
\<close>

definition msg_alice :: message where
  "msg_alice = \<lparr>author = \<lparr>display_name = Some (ascii ''alice''), name = ascii ''alice01''\<rparr>,
                 content = ascii '' @here 3pm ''\<rparr>"

definition msg_blank :: message where
  "msg_blank = \<lparr>author = \<lparr>display_name = Some (ascii ''bob''), name = ascii ''bob''\<rparr>,
                 content = []\<rparr>"

definition msg_nick :: message where
  "msg_nick = \<lparr>author = \<lparr>display_name = Some (ascii ''@everyone''), name = ascii ''bob''\<rparr>,
                content = ascii ''hi''\<rparr>"

definition msg_long :: message where
  "msg_long = \<lparr>author = \<lparr>display_name = Some (ascii ''uma''), name = ascii ''uma''\<rparr>,
                content = ascii ''@here'' @ replicate 495 97\<rparr>"

definition env_example :: "(str \<Rightarrow> exn + str) \<Rightarrow> message list \<Rightarrow> env" where
  "env_example chain messages =
     \<lparr>typing_raises = None, history = Inr messages, guild_name = Some (ascii ''team''),
      chain_invoke = chain, send_raises = (\<lambda>k. None)\<rparr>"

section \<open>Lengths of literals\<close>

lemma length_ascii: "length (ascii s) = length s"
  by (simp add: ascii_def)

lemma length_truncation_marker: "length truncation_marker = 24"
  by (simp add: truncation_marker_def length_ascii)

section \<open>Facts about \<open>replace\<close>\<close>

lemma replace_Nil: "old \<noteq> [] \<Longrightarrow> replace old new [] = []"
  by (simp add: replace.simps)

lemma replace_match:
  "old \<noteq> [] \<Longrightarrow> prefix old s \<Longrightarrow> replace old new s = new @ replace old new (drop (length old) s)"
  by (subst replace.simps) auto

lemma replace_skip:
  "old \<noteq> [] \<Longrightarrow> \<not> prefix old (c # cs) \<Longrightarrow> replace old new (c # cs) = c # replace old new cs"
  by (subst replace.simps) simp

lemma replace_cases [consumes 1, case_names Nil match skip]:
  assumes "old \<noteq> []"
    and "P []"
    and "\<And>s. prefix old s \<Longrightarrow> P (drop (length old) s) \<Longrightarrow> P s"
    and "\<And>c cs. \<not> prefix old (c # cs) \<Longrightarrow> P cs \<Longrightarrow> P (c # cs)"
  shows "P s"
proof (induction s rule: length_induct)
  case (1 s)
  show ?case
  proof (cases s)
    case Nil
    then show ?thesis using assms(2) by simp
  next
    case (Cons c cs)
    show ?thesis
    proof (cases "prefix old s")
      case True
      with assms(1) have "length (drop (length old) s) < length s"
        using Cons by (cases old) auto
      with 1 have "P (drop (length old) s)" by blast
      with True show ?thesis by (rule assms(3))
    next
      case False
      have "P cs" using 1 Cons by simp
      with False Cons show ?thesis using assms(4) by simp
    qed
  qed
qed

lemma prefix_replace_back:
  assumes "a \<notin> set t" "old = a # ol" "new = a # n"
  shows "prefix t (replace old new s) \<Longrightarrow> prefix t s"
  using assms(1)
proof (induction s arbitrary: t)
  case Nil
  then show ?case using assms by (simp add: replace_Nil)
next
  case (Cons c cs)
  show ?case
  proof (cases t)
    case Nil
    then show ?thesis by simp
  next
    case (Cons t0 t')
    show ?thesis
    proof (cases "prefix old (c # cs)")
      case True
      then have "replace old new (c # cs) = a # n @ replace old new (drop (length old) (c # cs))"
        using assms by (simp add: replace_match)
      with Cons.prems Cons show ?thesis by auto
    next
      case False
      then have "replace old new (c # cs) = c # replace old new cs"
        using assms by (simp add: replace_skip)
      with Cons.prems Cons Cons.IH [of t'] show ?thesis by auto
    qed
  qed
qed

lemma sublist_skip_other:
  "a \<notin> set n \<Longrightarrow> sublist (a # t) (n @ r) \<longleftrightarrow> sublist (a # t) r"
  by (induction n) (auto simp: sublist_Cons_right)

lemma no_token_replace:
  assumes tok: "tok = a # t0 # t'" "a \<notin> set (t0 # t')"
    and old: "old = a # ol"
    and new: "new = a # z # n" "a \<notin> set (z # n)" "z \<noteq> t0"
  shows "tok = old \<or> \<not> sublist tok s \<Longrightarrow> \<not> sublist tok (replace old new s)"
proof -
  have ne: "old \<noteq> []" using old by simp
  from ne show "tok = old \<or> \<not> sublist tok s \<Longrightarrow> \<not> sublist tok (replace old new s)"
  proof (induction s rule: replace_cases)
    case Nil
    then show ?case using tok old by (simp add: replace_Nil)
  next
    case (match s)
    have "tok = old \<or> \<not> sublist tok (drop (length old) s)"
      using match.prems sublist_order.order.trans [OF _ sublist_drop] by blast
    then have IH: "\<not> sublist tok (replace old new (drop (length old) s))"
      by (rule match.IH)
    have "replace old new s = a # (z # n) @ replace old new (drop (length old) s)"
      using match.hyps old new by (simp add: replace_match)
    moreover have "\<not> prefix tok (a # (z # n) @ replace old new (drop (length old) s))"
      using tok new by simp
    ultimately show ?case
      using IH sublist_skip_other [of a "z # n" "t0 # t'"] tok new
      by (simp add: sublist_Cons_right del: set_simps)
  next
    case (skip c cs)
    have nopre: "\<not> prefix tok (c # cs)"
      using skip.prems skip.hyps by auto
    have "tok = old \<or> \<not> sublist tok cs"
      using skip.prems by (auto simp: sublist_Cons_right)
    then have IH: "\<not> sublist tok (replace old new cs)" by (rule skip.IH)
    have eq: "replace old new (c # cs) = c # replace old new cs"
      using skip.hyps old by (simp add: replace_skip)
    have "\<not> prefix tok (c # replace old new cs)"
    proof
      assume p: "prefix tok (c # replace old new cs)"
      then have "c = a" and "prefix (t0 # t') (replace old new cs)" using tok by auto
      then have "prefix (t0 # t') cs"
        using prefix_replace_back [OF tok(2) old new(1)] by blast
      with \<open>c = a\<close> tok have "prefix tok (c # cs)" by simp
      with nopre show False by contradiction
    qed
    with IH eq show ?case by (simp add: sublist_Cons_right)
  qed
qed

lemma last_replace:
  assumes "old \<noteq> []" "new \<noteq> []" "last new = last old"
  shows "s \<noteq> [] \<Longrightarrow> replace old new s \<noteq> [] \<and> last (replace old new s) = last s"
  using assms(1)
proof (induction s rule: replace_cases)
  case Nil
  then show ?case by simp
next
  case (match s)
  obtain r where s: "s = old @ r" using match.hyps by (auto simp: prefix_def)
  have eq: "replace old new s = new @ replace old new r"
    using match.hyps assms(1) s by (simp add: replace_match)
  show ?case
  proof (cases "r = []")
    case True
    then show ?thesis using eq assms s by (simp add: replace_Nil)
  next
    case False
    with match.IH s have "replace old new r \<noteq> [] \<and> last (replace old new r) = last r" by simp
    with eq s False show ?thesis by simp
  qed
next
  case (skip c cs)
  have eq: "replace old new (c # cs) = c # replace old new cs"
    using skip.hyps assms(1) by (simp add: replace_skip)
  show ?case
  proof (cases "cs = []")
    case True
    then show ?thesis using eq assms(1) by (simp add: replace_Nil)
  next
    case False
    with skip.IH eq show ?thesis by simp
  qed
qed

lemmas replace_eval = replace_Nil replace_skip replace_match

lemma filter_replace:
  assumes "old \<noteq> []" "filter P new = filter P old"
  shows "filter P (replace old new s) = filter P s"
  using assms(1)
proof (induction s rule: replace_cases)
  case Nil
  then show ?case using assms(1) by (simp add: replace_Nil)
next
  case (match s)
  obtain r where s: "s = old @ r" using match.hyps by (auto simp: prefix_def)
  have "replace old new s = new @ replace old new r"
    using match.hyps assms(1) s by (simp add: replace_match)
  with match.IH s assms(2) show ?case by simp
next
  case (skip c cs)
  have "replace old new (c # cs) = c # replace old new cs"
    using skip.hyps assms(1) by (simp add: replace_skip)
  with skip.IH show ?case by simp
qed

lemma replace_replicate:
  "old \<noteq> [] \<Longrightarrow> hd old \<noteq> c \<Longrightarrow> replace old new (replicate n c) = replicate n c"
  by (induction n) (auto simp: replace_Nil replace_skip prefix_def neq_Nil_conv)

section \<open>Facts about the transcript\<close>

lemma strip_last: "strip s \<noteq> [] \<Longrightarrow> \<not> isspace (last (strip s))"
  unfolding strip_def by (simp add: last_rev hd_dropWhile)

lemma isspace_newline: "isspace 10"
  by (simp add: isspace_def)

lemma at_everyone_unfold: "at_everyone = [64, 101, 118, 101, 114, 121, 111, 110, 101]"
  by (simp add: at_everyone_def ascii_def)

lemma at_here_unfold: "at_here = [64, 104, 101, 114, 101]"
  by (simp add: at_here_def ascii_def)

lemma at_zwsp_everyone_unfold:
  "at_zwsp_everyone = [64, 8203, 101, 118, 101, 114, 121, 111, 110, 101]"
  by (simp add: at_zwsp_everyone_def ascii_def)

lemma at_zwsp_here_unfold: "at_zwsp_here = [64, 8203, 104, 101, 114, 101]"
  by (simp add: at_zwsp_here_def ascii_def)

lemma sanitize_last:
  assumes "c \<noteq> []"
  shows "sanitize c \<noteq> [] \<and> last (sanitize c) = last c"
proof -
  have 1: "replace at_everyone at_zwsp_everyone c \<noteq> [] \<and>
           last (replace at_everyone at_zwsp_everyone c) = last c"
    by (rule last_replace) (simp_all add: at_everyone_unfold at_zwsp_everyone_unfold assms)
  then have "replace at_here at_zwsp_here (replace at_everyone at_zwsp_everyone c) \<noteq> [] \<and>
        last (replace at_here at_zwsp_here (replace at_everyone at_zwsp_everyone c)) =
        last (replace at_everyone at_zwsp_everyone c)"
    by (intro last_replace) (simp_all add: at_here_unfold at_zwsp_here_unfold)
  with 1 show ?thesis by (simp add: sanitize_def)
qed

lemma sanitize_no_everyone: "\<not> sublist at_everyone (sanitize c)"
proof -
  have 1: "\<not> sublist at_everyone (replace at_everyone at_zwsp_everyone c)"
    by (rule no_token_replace
          [OF at_everyone_unfold _ at_everyone_unfold at_zwsp_everyone_unfold]) simp_all
  have "\<not> sublist at_everyone
          (replace at_here at_zwsp_here (replace at_everyone at_zwsp_everyone c))"
    by (rule no_token_replace
          [OF at_everyone_unfold _ at_here_unfold at_zwsp_here_unfold]) (simp_all add: 1)
  then show ?thesis by (simp add: sanitize_def)
qed

lemma sanitize_no_here: "\<not> sublist at_here (sanitize c)"
  unfolding sanitize_def
  by (rule no_token_replace
        [OF at_here_unfold _ at_here_unfold at_zwsp_here_unfold]) simp_all

lemma transcript_line_last:
  "qualifies m \<Longrightarrow> transcript_line m \<noteq> [] \<and> last (transcript_line m) \<noteq> 10"
  using sanitize_last [of "strip (content m)"] strip_last [of "content m"] isspace_newline
  by (auto simp: qualifies_def transcript_line_def)

lemma transcript_loop_eq:
  "transcript_loop ms acc = acc @ concat (map (\<lambda>m. transcript_line m @ [10]) (filter qualifies ms))"
  by (induction ms arbitrary: acc) (simp_all add: Let_def qualifies_def transcript_line_def)

lemma rstrip_snoc_other: "c \<notin> set chars \<Longrightarrow> rstrip chars (s @ [c]) = s @ [c]"
  by (simp add: rstrip_def)

lemma rstrip_snoc_in: "c \<in> set chars \<Longrightarrow> rstrip chars (s @ [c]) = rstrip chars s"
  by (simp add: rstrip_def)

lemma rstrip_Nil: "rstrip chars [] = []"
  by (simp add: rstrip_def)

lemma join_Cons: "ls \<noteq> [] \<Longrightarrow> join sep (l # ls) = l @ sep @ join sep ls"
  by (cases ls) simp_all

lemma rstrip_lines:
  assumes "\<forall>l \<in> set ls. l \<noteq> [] \<and> last l \<noteq> 10"
  shows "rstrip [10] (acc @ concat (map (\<lambda>l. l @ [10]) ls)) =
         (if ls = [] then rstrip [10] acc else acc @ join [10] ls)"
  using assms
proof (induction ls arbitrary: acc)
  case Nil
  then show ?case by simp
next
  case (Cons l ls)
  show ?case
  proof (cases "ls = []")
    case True
    from Cons.prems obtain b x where l: "l = b @ [x]" "x \<noteq> 10"
      by (cases l rule: rev_cases) auto
    have "rstrip [10] (((acc @ b) @ [x]) @ [10]) = (acc @ b) @ [x]"
      using l(2) by (simp only: rstrip_snoc_in rstrip_snoc_other list.set insert_iff empty_iff simp_thms)
    with True l show ?thesis by simp
  next
    case False
    have "rstrip [10] ((acc @ l @ [10]) @ concat (map (\<lambda>l. l @ [10]) ls)) =
          (acc @ l @ [10]) @ join [10] ls"
      using Cons.IH [of "acc @ l @ [10]"] Cons.prems False by simp
    with False show ?thesis by (simp add: join_Cons)
  qed
qed

lemma build_transcript_join:
  "build_transcript messages = join [10] (map transcript_line (filter qualifies (rev messages)))"
proof -
  let ?ls = "map transcript_line (filter qualifies (rev messages))"
  have "\<forall>l \<in> set ?ls. l \<noteq> [] \<and> last l \<noteq> 10"
    using transcript_line_last by auto
  from rstrip_lines [OF this, of "[]"]
  show ?thesis
    by (simp add: build_transcript_def transcript_loop_eq rstrip_Nil comp_def
        split: if_splits)
qed

lemma sublist_sep:
  assumes "c \<notin> set tok" "tok \<noteq> []"
  shows "sublist tok (xs @ c # ys) \<longleftrightarrow> sublist tok xs \<or> sublist tok ys"
proof
  assume "sublist tok (xs @ c # ys)"
  then consider "sublist tok xs" | "sublist tok (c # ys)"
    | t1 t2 where "tok = t1 @ t2" "suffix t1 xs" "prefix t2 (c # ys)"
    by (auto simp: sublist_append)
  then show "sublist tok xs \<or> sublist tok ys"
  proof cases
    case 1
    then show ?thesis by simp
  next
    case 2
    then show ?thesis using assms by (cases tok) (auto simp: sublist_Cons_right)
  next
    case 3
    show ?thesis
    proof (cases t2)
      case Nil
      with 3 have "suffix tok xs" by simp
      then show ?thesis by auto
    next
      case (Cons a t2')
      with 3 assms have False by auto
      then show ?thesis ..
    qed
  qed
next
  assume "sublist tok xs \<or> sublist tok ys"
  then show "sublist tok (xs @ c # ys)"
    by (auto simp: sublist_append sublist_Cons_right)
qed

lemma sublist_join:
  assumes "10 \<notin> set tok" "tok \<noteq> []"
  shows "sublist tok (join [10] ls) \<longleftrightarrow> (\<exists>l \<in> set ls. sublist tok l)"
proof (induction ls)
  case Nil
  then show ?case using assms by simp
next
  case (Cons l ls)
  show ?case
  proof (cases "ls = []")
    case True
    then show ?thesis by simp
  next
    case False
    then show ?thesis using Cons sublist_sep [OF assms, of l "join [10] ls"]
      by (simp add: join_Cons)
  qed
qed

lemma sanitize_only_inserts_zwsp:
  "filter (\<lambda>x. x \<noteq> 8203) (sanitize c) = filter (\<lambda>x. x \<noteq> 8203) c"
proof -
  have "filter (\<lambda>x. x \<noteq> 8203) (sanitize c) =
        filter (\<lambda>x. x \<noteq> 8203) (replace at_everyone at_zwsp_everyone c)"
    unfolding sanitize_def
    by (rule filter_replace) (simp_all add: at_here_unfold at_zwsp_here_unfold)
  also have "\<dots> = filter (\<lambda>x. x \<noteq> 8203) c"
    by (rule filter_replace) (simp_all add: at_everyone_unfold at_zwsp_everyone_unfold)
  finally show ?thesis .
qed

lemma strip_id:
  assumes "s \<noteq> []" "\<not> isspace (hd s)" "\<not> isspace (last s)"
  shows "strip s = s"
proof -
  from assms(1,2) have 1: "dropWhile isspace s = s" by (cases s) auto
  from assms(1,3) have "dropWhile isspace (rev s) = rev s" by (cases s rule: rev_cases) auto
  with 1 show ?thesis by (simp add: strip_def)
qed

lemma build_transcript_Nil: "build_transcript [] = []"
  by (simp add: build_transcript_def rstrip_Nil)

lemma sublist_transcript_line:
  assumes "tok = at_everyone \<or> tok = at_here" "sublist tok (transcript_line m)"
  shows "sublist tok (username m)"
proof -
  let ?c = "sanitize (strip (content m))"
  have tok: "58 \<notin> set tok" "32 \<notin> set tok" "tok \<noteq> []"
    using assms(1) by (auto simp: at_everyone_unfold at_here_unfold)
  have "transcript_line m = username m @ 58 # ([] @ 32 # ?c)"
    by (simp add: transcript_line_def ascii_def)
  with assms(2) have "sublist tok (username m) \<or> sublist tok ([] @ 32 # ?c)"
    using sublist_sep [OF tok(1,3)] by simp
  moreover have "\<not> sublist tok ([] @ 32 # ?c)"
    using sublist_sep [OF tok(2,3), of "[]" ?c] tok(3) assms(1)
      sanitize_no_everyone [of "strip (content m)"] sanitize_no_here [of "strip (content m)"]
    by auto
  ultimately show ?thesis by blast
qed

section \<open>The example inputs evaluated\<close>

lemma strip_alice: "strip (content msg_alice) = ascii ''@here 3pm''"
  by (simp add: msg_alice_def ascii_def strip_def isspace_def)

lemma sanitize_alice: "sanitize (ascii ''@here 3pm'') = [64, 8203] @ ascii ''here 3pm''"
  by (simp add: sanitize_def at_everyone_unfold at_here_unfold at_zwsp_everyone_unfold
      at_zwsp_here_unfold ascii_def replace_eval)

lemma qualifies_alice: "qualifies msg_alice"
  by (simp add: qualifies_def strip_alice length_ascii) (simp add: ascii_def)

lemma build_transcript_alice:
  "build_transcript [msg_alice] = ascii ''alice: '' @ [64, 8203] @ ascii ''here 3pm''"
  by (simp add: build_transcript_join qualifies_alice transcript_line_def strip_alice
      sanitize_alice) (simp add: username_def msg_alice_def ascii_def)

lemma strip_nick: "strip (content msg_nick) = ascii ''hi''"
  by (simp add: msg_nick_def ascii_def strip_def isspace_def)

lemma sanitize_hi: "sanitize (ascii ''hi'') = ascii ''hi''"
  by (simp add: sanitize_def at_everyone_unfold at_here_unfold ascii_def replace_eval)

lemma build_transcript_nick: "build_transcript [msg_nick] = at_everyone @ ascii '': hi''"
  by (simp add: build_transcript_join qualifies_def transcript_line_def strip_nick sanitize_hi
      length_ascii) (simp add: username_def msg_nick_def ascii_def at_everyone_def)

lemma strip_long: "strip (content msg_long) = at_here @ replicate 495 97"
  by (rule trans [OF _ strip_id [of "at_here @ replicate 495 97"]])
     (simp_all add: msg_long_def at_here_def ascii_def isspace_def)

lemma sanitize_long: "sanitize (at_here @ replicate 495 97) = at_zwsp_here @ replicate 495 97"
  by (simp add: sanitize_def at_everyone_unfold at_here_unfold at_zwsp_here_unfold
      replace_eval replace_replicate)

lemma build_transcript_long:
  "build_transcript [msg_long] = ascii ''uma: '' @ at_zwsp_here @ replicate 495 97"
  by (simp add: build_transcript_join qualifies_def transcript_line_def strip_long sanitize_long)
     (simp add: username_def msg_long_def ascii_def at_here_unfold)

lemma strip_blank: "strip (content msg_blank) = []"
  by (simp add: msg_blank_def ascii_def strip_def isspace_def)

section \<open>Facts about the handler\<close>

lemma length_msgs:
  "length msg_usage = 25" "length msg_timeout = 52" "length msg_no_messages = 36"
  "length msg_no_valid = 37" "length msg_trouble = 89" "length msg_no_response = 52"
  "length msg_forbidden = 66" "length msg_http = 66" "length msg_unexpected = 58"
  "length msg_ai_error = 90"
  by (simp_all add: msg_usage_def msg_timeout_def msg_no_messages_def msg_no_valid_def
      msg_trouble_def msg_no_response_def msg_forbidden_def msg_http_def msg_unexpected_def
      msg_ai_error_def cross_mark_def alarm_clock_def warning_sign_def length_ascii)

lemma msg_ai_error_nonempty: "msg_ai_error \<noteq> []"
  using length_msgs(10) by auto

lemma process_schedule_request_result:
  "\<exists>r. snd (process_schedule_request chain s tr) = Inr r \<and> length r \<le> 2000 \<and>
       (r = [] \<longleftrightarrow> chain s = Inr [])"
  by (auto simp: process_schedule_request_def MAX_MESSAGE_LENGTH_def length_msgs
      length_truncation_marker msg_ai_error_nonempty split: sum.splits)

lemma process_schedule_request_trace:
  "fst (process_schedule_request chain s tr) =
     tr @ ChainInvoke s # (case chain s of Inl ex \<Rightarrow> [LogError] | Inr r \<Rightarrow> [])"
  by (simp add: process_schedule_request_def split: sum.splits)

lemma send_events:
  "set (fst (send e ev tr)) = insert ev (set tr)"
  by (simp add: send_def)

lemma schedule_body_events:
  assumes "\<forall>ev \<in> set tr. expected_event ev"
  shows "\<forall>ev \<in> set (fst (schedule_body e tr)). expected_event ev"
proof (cases "history e")
  case (Inl ex)
  with assms show ?thesis
    by (auto simp: schedule_body_def send_events expected_event_def)
next
  case (Inr messages)
  let ?s = "build_transcript messages"
  let ?tr = "tr @ [HistoryFetch, LogInfo]"
  obtain tr' res where p: "process_schedule_request (chain_invoke e) ?s ?tr = (tr', res)"
    by (cases "process_schedule_request (chain_invoke e) ?s ?tr")
  from process_schedule_request_result [of "chain_invoke e" ?s ?tr] p
  obtain r where r: "res = Inr r" "length r \<le> 2000" by auto
  from process_schedule_request_trace [of "chain_invoke e" ?s ?tr] p assms
  have tr': "\<forall>ev \<in> set tr'. expected_event ev"
    by (auto simp: expected_event_def split: sum.splits)
  have base: "\<forall>ev \<in> set (tr @ [HistoryFetch]). expected_event ev"
    using assms by (simp add: expected_event_def)
  have sends: "\<And>m t. expected_event m \<Longrightarrow> \<forall>ev \<in> set t. expected_event ev \<Longrightarrow>
      \<forall>ev \<in> set (fst (send e m t)). expected_event ev"
    by (simp add: send_events)
  have cmsg: "expected_event (CtxSend msg_no_messages)" "expected_event (CtxSend msg_no_valid)"
    "expected_event (CtxSend msg_no_response)"
    by (simp_all add: expected_event_def)
  have resp: "r \<noteq> [] \<Longrightarrow> expected_event (ChannelSend r)"
    using r(2) by (simp add: expected_event_def)
  show ?thesis
    using Inr p r(1) base sends [OF cmsg(1) base] sends [OF cmsg(2) base]
      sends [OF cmsg(3) tr'] sends [OF resp tr']
    by (simp add: schedule_body_def Let_def split: option.splits)
qed

lemma schedule_meet_events:
  "\<forall>ev \<in> set (fst (schedule_meet e action)). expected_event ev"
proof -
  have "\<forall>ev \<in> set [TypingStart]. expected_event ev" by (simp add: expected_event_def)
  from schedule_body_events [OF this, of e]
  show ?thesis
    by (auto simp: schedule_meet_def send_events expected_event_def
        split: option.splits prod.splits if_splits)
qed

lemma meet_ne_sync: "Some (ascii ''sync'') \<noteq> Some (ascii ''meet'')"
  by (simp add: ascii_def)

lemma schedule_meet_example_long:
  "schedule_meet (env_example (\<lambda>s. Inr (replicate 3000 65)) [msg_alice]) (Some (ascii ''meet'')) =
     ([TypingStart, HistoryFetch, LogInfo, ChainInvoke (build_transcript [msg_alice]),
       ChannelSend (replicate 1950 65 @ truncation_marker)], None)"
proof -
  have "build_transcript [msg_alice] \<noteq> []"
    by (simp add: build_transcript_alice ascii_def)
  moreover have "replicate 1950 (65::nat) @ truncation_marker \<noteq> []"
    by (simp add: truncation_marker_def)
  ultimately show ?thesis
    by (simp add: schedule_meet_def schedule_body_def env_example_def send_def
        process_schedule_request_def MAX_MESSAGE_LENGTH_def)
qed

lemma schedule_meet_example_fail:
  "schedule_meet (env_example (\<lambda>s. Inl OtherException) [msg_alice]) (Some (ascii ''meet'')) =
     ([TypingStart, HistoryFetch, LogInfo, ChainInvoke (build_transcript [msg_alice]),
       LogError, ChannelSend msg_ai_error], None)"
proof -
  have "build_transcript [msg_alice] \<noteq> []"
    by (simp add: build_transcript_alice ascii_def)
  then show ?thesis
    by (simp add: schedule_meet_def schedule_body_def env_example_def send_def
        process_schedule_request_def msg_ai_error_nonempty)
qed

lemma trouble_in_msg_trouble: "sublist (ascii ''trouble analyzing'') msg_trouble"
proof -
  have "msg_trouble = (warning_sign @ ascii '' I'' @ [39] @ ascii ''m having '') @
      ascii ''trouble analyzing'' @
      ascii '' the conversation right now. Please try again in a moment.''"
    by (simp add: msg_trouble_def ascii_def)
  then show ?thesis
    unfolding sublist_def by blast
qed

lemma trouble_not_in_msg_ai_error: "\<not> sublist (ascii ''trouble analyzing'') msg_ai_error"
  by (simp add: msg_ai_error_def warning_sign_def ascii_def sublist_Cons_right)


section \<open>Mass-mention tokens\<close>

text \<open>
  C1, as the code has it. The replacement is applied to the content of a message, not to
  the author's name. For every fetched list: the content that goes into a line contains
  neither \<open>@everyone\<close> nor \<open>@here\<close> and differs from the trimmed content only by inserted
  zero-width spaces; and a raw token occurs in the built transcript only if it occurs in the
  name of the author of a message that qualifies.
\<close>

theorem C1_tokens_only_from_names:
  "(\<forall>m \<in> set messages.
      \<not> sublist at_everyone (sanitize (strip (content m))) \<and>
      \<not> sublist at_here (sanitize (strip (content m))) \<and>
      filter (\<lambda>x. x \<noteq> 8203) (sanitize (strip (content m))) =
        filter (\<lambda>x. x \<noteq> 8203) (strip (content m))) \<and>
   (\<forall>tok \<in> {at_everyone, at_here}.
      sublist tok (build_transcript messages) \<longrightarrow>
      (\<exists>m \<in> set messages. qualifies m \<and> sublist tok (username m)))"
proof -
  have "\<exists>m \<in> set messages. qualifies m \<and> sublist tok (username m)"
    if tok: "tok = at_everyone \<or> tok = at_here" and sub: "sublist tok (build_transcript messages)"
    for tok
  proof -
    have "10 \<notin> set tok" "tok \<noteq> []"
      using tok by (auto simp: at_everyone_unfold at_here_unfold)
    from sub sublist_join [OF this]
    obtain m where "m \<in> set messages" "qualifies m" "sublist tok (transcript_line m)"
      by (auto simp: build_transcript_join)
    with tok sublist_transcript_line show ?thesis by blast
  qed
  then show ?thesis
    using sanitize_no_everyone sanitize_no_here sanitize_only_inserts_zwsp by auto
qed

theorem C1_tokens_only_from_names_witness:
  "msg_alice \<in> set [msg_alice] \<and>
   \<not> sublist at_here (sanitize (strip (content msg_alice))) \<and>
   at_everyone \<in> {at_everyone, at_here} \<and>
   \<not> sublist at_everyone (build_transcript [msg_alice])"
proof -
  have "\<not> sublist at_everyone (username msg_alice)"
    by (simp add: username_def msg_alice_def ascii_def at_everyone_unfold sublist_Cons_right)
  then show ?thesis
    using C1_tokens_only_from_names [of "[msg_alice]"] by auto
qed

text \<open>
  C1 as stated fails: a member whose server nickname is \<open>@everyone\<close> writes \<open>hi\<close>, and
  the transcript is \<open>@everyone: hi\<close>.
\<close>

theorem C1_counterexample: "sublist at_everyone (build_transcript [msg_nick])"
  by (simp add: build_transcript_nick)

section \<open>Response clamping\<close>

text \<open>
  C2. When the chain returns a recommendation longer than 2000 code points,
  \<open>process_schedule_request\<close> returns its first 1950 code points (exactly 1950 of them)
  followed by the truncation marker; a recommendation of at most 2000 code points is
  returned unchanged.
\<close>

theorem C2_truncation:
  assumes "chain s = Inr r"
  shows "snd (process_schedule_request chain s tr) =
           Inr (if length r > 2000 then take 1950 r @ truncation_marker else r) \<and>
         (length r > 2000 \<longrightarrow> length (take 1950 r) = 1950)"
  using assms by (simp add: process_schedule_request_def MAX_MESSAGE_LENGTH_def)

theorem C2_truncation_witness:
  "(\<lambda>s. Inr (replicate 2001 65)) (ascii ''bob: hi'') = (Inr (replicate 2001 65) :: exn + str) \<and>
   snd (process_schedule_request (\<lambda>s. Inr (replicate 2001 65)) (ascii ''bob: hi'') []) =
     Inr (replicate 1950 65 @ truncation_marker)"
  using C2_truncation [of "\<lambda>s. Inr (replicate 2001 65)" "ascii ''bob: hi''" "replicate 2001 65" "[]"]
  by simp

text \<open>
  C3. Whatever the chain returns or raises, and whatever else happens in the invocation,
  every text the handler sends (with \<open>channel.send\<close> or \<open>ctx.send\<close>) has at most 2000 code
  points; in particular the posted recommendation has.
\<close>

theorem C3_posted_text_bounded:
  "\<forall>ev \<in> set (fst (schedule_meet e action)). length (sent_text ev) \<le> 2000"
proof
  fix ev
  assume "ev \<in> set (fst (schedule_meet e action))"
  with schedule_meet_events have "expected_event ev" by blast
  then show "length (sent_text ev) \<le> 2000"
    by (auto simp: expected_event_def length_msgs)
qed

theorem C3_posted_text_bounded_witness:
  "ChannelSend (replicate 1950 65 @ truncation_marker) \<in>
     set (fst (schedule_meet (env_example (\<lambda>s. Inr (replicate 3000 65)) [msg_alice])
                 (Some (ascii ''meet'')))) \<and>
   length (replicate 1950 (65::nat) @ truncation_marker) \<le> 2000"
proof -
  let ?e = "env_example (\<lambda>s. Inr (replicate 3000 65)) [msg_alice]"
  have m: "ChannelSend (replicate 1950 65 @ truncation_marker) \<in>
     set (fst (schedule_meet ?e (Some (ascii ''meet''))))"
    by (simp add: schedule_meet_example_long)
  with C3_posted_text_bounded [of ?e "Some (ascii ''meet'')"]
  have "length (sent_text (ChannelSend (replicate 1950 65 @ truncation_marker))) \<le> 2000"
    by blast
  with m show ?thesis by simp
qed

section \<open>Shape of the transcript\<close>

text \<open>
  C4, as the code has it. The transcript is the newline-join of the lines of the
  qualifying messages, taken oldest first: at most as many entries as fetched messages, in
  the order of the reversed fetch, each from a message whose trimmed content is non-empty
  and at most 500 code points long. The bound is on the content before the replacement; the
  content in the line is at most 500 code points long once the inserted zero-width spaces
  are left out.
\<close>

theorem C4_transcript_entries:
  "build_transcript messages =
     join [10] (map transcript_line (filter qualifies (rev messages))) \<and>
   length (filter qualifies (rev messages)) \<le> length messages \<and>
   subseq (filter qualifies (rev messages)) (rev messages) \<and>
   (\<forall>m \<in> set (filter qualifies (rev messages)).
      strip (content m) \<noteq> [] \<and> length (strip (content m)) \<le> 500 \<and>
      length (filter (\<lambda>x. x \<noteq> 8203) (sanitize (strip (content m)))) \<le> 500)"
proof -
  have "length (filter (\<lambda>x. x \<noteq> 8203) (sanitize (strip (content m)))) \<le> 500"
    if "qualifies m" for m
  proof -
    have "length (filter (\<lambda>x. x \<noteq> 8203) (strip (content m))) \<le> length (strip (content m))"
      by (rule length_filter_le)
    moreover from that have "length (strip (content m)) \<le> 500"
      by (simp add: qualifies_def)
    ultimately have "length (filter (\<lambda>x. x \<noteq> 8203) (strip (content m))) \<le> 500"
      by (rule le_trans)
    then show ?thesis by (simp add: sanitize_only_inserts_zwsp)
  qed
  moreover have "length (filter qualifies (rev messages)) \<le> length messages"
    using length_filter_le [of qualifies "rev messages"] by simp
  ultimately show ?thesis
    by (simp add: build_transcript_join qualifies_def del: rev_filter)
qed

theorem C4_transcript_entries_witness:
  "msg_alice \<in> set (filter qualifies (rev [msg_blank, msg_alice])) \<and>
   build_transcript [msg_blank, msg_alice] = transcript_line msg_alice \<and>
   length (strip (content msg_alice)) \<le> 500"
proof -
  have "\<not> qualifies msg_blank" by (simp add: qualifies_def strip_blank)
  then show ?thesis
    using C4_transcript_entries [of "[msg_blank, msg_alice]"] qualifies_alice by simp
qed

text \<open>
  C4 as stated fails: a message of exactly 500 code points that starts with \<open>@here\<close>
  passes the length test, and the content in its line has 501 code points.
\<close>

theorem C4_counterexample:
  "qualifies msg_long \<and>
   build_transcript [msg_long] = ascii ''uma: '' @ sanitize (strip (content msg_long)) \<and>
   length (sanitize (strip (content msg_long))) = 501"
  by (simp add: build_transcript_long qualifies_def strip_long sanitize_long)
     (simp add: at_here_unfold at_zwsp_here_unfold)

section \<open>Early exits of the handler\<close>

text \<open>
  C5. The sub-action is \<open>meet\<close>, the typing indicator starts and the fetch returns no
  message: the first send of the handler is the "no messages found" text, the chain is
  never invoked, and when that send succeeds the handler returns with nothing else done.
\<close>

theorem C5_no_messages:
  assumes "action = Some (ascii ''meet'')" "typing_raises e = None" "history e = Inr []"
  shows "take 3 (fst (schedule_meet e action)) =
           [TypingStart, HistoryFetch, CtxSend msg_no_messages] \<and>
         (\<forall>ev \<in> set (fst (schedule_meet e action)). \<not> is_chain_invoke ev) \<and>
         (send_raises e 0 = None \<longrightarrow>
            schedule_meet e action =
              ([TypingStart, HistoryFetch, CtxSend msg_no_messages], None))"
  using assms
  by (auto simp: schedule_meet_def schedule_body_def send_def split: option.splits)

theorem C5_no_messages_witness:
  "schedule_meet (env_example (\<lambda>s. Inr (ascii ''ok'')) []) (Some (ascii ''meet'')) =
     ([TypingStart, HistoryFetch, CtxSend msg_no_messages], None)"
  using C5_no_messages [of "Some (ascii ''meet'')" "env_example (\<lambda>s. Inr (ascii ''ok'')) []"]
  by (simp add: env_example_def)

text \<open>
  C6. The fetch returns at least one message and every message has a trimmed content that
  is empty or longer than 500 code points: the first send of the handler is the "no valid
  messages found" text, the chain is never invoked, and when that send succeeds the handler
  returns with nothing else done.
\<close>

theorem C6_no_valid_messages:
  assumes "action = Some (ascii ''meet'')" "typing_raises e = None"
    and "history e = Inr messages" "messages \<noteq> []"
    and "\<forall>m \<in> set messages. strip (content m) = [] \<or> length (strip (content m)) > 500"
  shows "take 3 (fst (schedule_meet e action)) =
           [TypingStart, HistoryFetch, CtxSend msg_no_valid] \<and>
         (\<forall>ev \<in> set (fst (schedule_meet e action)). \<not> is_chain_invoke ev) \<and>
         (send_raises e 0 = None \<longrightarrow>
            schedule_meet e action = ([TypingStart, HistoryFetch, CtxSend msg_no_valid], None))"
proof -
  have "filter qualifies (rev messages) = []"
    using assms(5) by (auto simp: filter_empty_conv qualifies_def)
  then have "build_transcript messages = []"
    by (simp add: build_transcript_join del: rev_filter)
  with assms(1-4) show ?thesis
    by (auto simp: schedule_meet_def schedule_body_def send_def split: option.splits)
qed

theorem C6_no_valid_messages_witness:
  "schedule_meet (env_example (\<lambda>s. Inr (ascii ''ok'')) [msg_blank]) (Some (ascii ''meet'')) =
     ([TypingStart, HistoryFetch, CtxSend msg_no_valid], None)"
  using C6_no_valid_messages [of "Some (ascii ''meet'')"
      "env_example (\<lambda>s. Inr (ascii ''ok'')) [msg_blank]" "[msg_blank]"]
  by (simp add: env_example_def strip_blank)

text \<open>
  C7. The sub-action is anything but the literal \<open>meet\<close>, or is absent: the handler
  sends the usage text and that is all it does; there is no history fetch and no chain
  invocation.
\<close>

theorem C7_usage:
  assumes "action \<noteq> Some (ascii ''meet'')"
  shows "schedule_meet e action = ([CtxSend msg_usage], send_raises e 0) \<and>
         HistoryFetch \<notin> set (fst (schedule_meet e action)) \<and>
         (\<forall>ev \<in> set (fst (schedule_meet e action)). \<not> is_chain_invoke ev)"
  using assms by (simp add: schedule_meet_def send_def)

theorem C7_usage_witness:
  "schedule_meet (env_example (\<lambda>s. Inr (ascii ''ok'')) [msg_alice]) (Some (ascii ''sync'')) =
     ([CtxSend msg_usage], None) \<and>
   schedule_meet (env_example (\<lambda>s. Inr (ascii ''ok'')) [msg_alice]) None =
     ([CtxSend msg_usage], None)"
  using C7_usage [of "Some (ascii ''sync'')" "env_example (\<lambda>s. Inr (ascii ''ok'')) [msg_alice]"]
    C7_usage [of None "env_example (\<lambda>s. Inr (ascii ''ok'')) [msg_alice]"] meet_ne_sync
  by (simp add: env_example_def)

section \<open>Failure of the chain\<close>

text \<open>
  C8, as the code has it. The handler reaches the recommendation client and the chain
  raises: \<open>process_schedule_request\<close> invokes the chain once, logs, and returns the fixed
  text "Sorry, I encountered an error while analyzing the conversation. Please try again
  later."; the handler invokes the chain exactly once in the whole invocation and posts
  that text to the channel, and when the post succeeds it is the only message sent.
\<close>

theorem C8_chain_failure:
  assumes "action = Some (ascii ''meet'')" "typing_raises e = None"
    and "history e = Inr messages" "build_transcript messages \<noteq> []"
    and "guild_name e = Some g"
    and "chain_invoke e (build_transcript messages) = Inl ex"
  shows "process_schedule_request (chain_invoke e) (build_transcript messages) tr =
           (tr @ [ChainInvoke (build_transcript messages), LogError], Inr msg_ai_error) \<and>
         take 6 (fst (schedule_meet e action)) =
           [TypingStart, HistoryFetch, LogInfo, ChainInvoke (build_transcript messages),
            LogError, ChannelSend msg_ai_error] \<and>
         length (filter is_chain_invoke (fst (schedule_meet e action))) = 1 \<and>
         (send_raises e 0 = None \<longrightarrow>
            schedule_meet e action =
              ([TypingStart, HistoryFetch, LogInfo, ChainInvoke (build_transcript messages),
                LogError, ChannelSend msg_ai_error], None))"
proof -
  have "messages \<noteq> []" using assms(4) build_transcript_Nil by auto
  with assms show ?thesis
    by (auto simp: schedule_meet_def schedule_body_def send_def process_schedule_request_def
        msg_ai_error_nonempty split: option.splits)
qed

theorem C8_chain_failure_witness:
  "schedule_meet (env_example (\<lambda>s. Inl OtherException) [msg_alice]) (Some (ascii ''meet'')) =
     ([TypingStart, HistoryFetch, LogInfo, ChainInvoke (build_transcript [msg_alice]),
       LogError, ChannelSend msg_ai_error], None)"
proof -
  have "build_transcript [msg_alice] \<noteq> []"
    by (simp add: build_transcript_alice ascii_def)
  then show ?thesis
    using C8_chain_failure [of "Some (ascii ''meet'')"
        "env_example (\<lambda>s. Inl OtherException) [msg_alice]" "[msg_alice]" "ascii ''team''"
        OtherException "[]"]
    by (simp add: env_example_def)
qed

text \<open>
  C8 as stated fails: the text returned and posted when the chain raises is not the
  "trouble analyzing" text. That wording belongs to the reply of the caller's own
  \<open>except\<close> branch, which is never sent.
\<close>

theorem C8_counterexample:
  "snd (process_schedule_request (\<lambda>s. Inl OtherException) (build_transcript [msg_alice]) []) =
     Inr msg_ai_error \<and>
   \<not> sublist (ascii ''trouble analyzing'') msg_ai_error \<and>
   sublist (ascii ''trouble analyzing'') msg_trouble \<and>
   CtxSend msg_trouble \<notin>
     set (fst (schedule_meet (env_example (\<lambda>s. Inl OtherException) [msg_alice])
                 (Some (ascii ''meet''))))"
  using trouble_in_msg_trouble trouble_not_in_msg_ai_error
  by (simp add: schedule_meet_example_fail process_schedule_request_def)

section \<open>Cooldown\<close>



text \<open>
  C10, as the code has it. \<open>process_schedule_request\<close> never raises, and the string it
  returns is empty exactly when the chain returns the empty string. The caller's
  \<open>except\<close> branch around it is unreachable: the "having trouble analyzing" text is never
  sent. A text posted with \<open>channel.send\<close> is never empty, because the handler tests the
  response first.
\<close>

theorem C10_never_raises:
  "(\<exists>r. snd (process_schedule_request chain s tr) = Inr r \<and> (r = [] \<longleftrightarrow> chain s = Inr [])) \<and>
   CtxSend msg_trouble \<notin> set (fst (schedule_meet e action)) \<and>
   (\<forall>r. ChannelSend r \<in> set (fst (schedule_meet e action)) \<longrightarrow> r \<noteq> [])"
proof -
  have 1: "\<exists>r. snd (process_schedule_request chain s tr) = Inr r \<and> (r = [] \<longleftrightarrow> chain s = Inr [])"
    using process_schedule_request_result [of chain s tr] by blast
  have 2: "CtxSend msg_trouble \<notin> set (fst (schedule_meet e action))"
  proof
    assume "CtxSend msg_trouble \<in> set (fst (schedule_meet e action))"
    with schedule_meet_events have "expected_event (CtxSend msg_trouble)" by blast
    then have "length msg_trouble \<in> {25, 52, 36, 37, 66, 58}"
      using length_msgs by (auto simp: expected_event_def)
    then show False by (simp add: length_msgs)
  qed
  have 3: "r \<noteq> []" if "ChannelSend r \<in> set (fst (schedule_meet e action))" for r
  proof -
    from that schedule_meet_events have "expected_event (ChannelSend r)" by blast
    then show ?thesis by (simp add: expected_event_def)
  qed
  from 1 2 3 show ?thesis by blast
qed

theorem C10_never_raises_witness:
  "ChannelSend (replicate 1950 65 @ truncation_marker) \<in>
     set (fst (schedule_meet (env_example (\<lambda>s. Inr (replicate 3000 65)) [msg_alice])
                 (Some (ascii ''meet'')))) \<and>
   replicate 1950 (65::nat) @ truncation_marker \<noteq> []"
proof -
  let ?e = "env_example (\<lambda>s. Inr (replicate 3000 65)) [msg_alice]"
  have m: "ChannelSend (replicate 1950 65 @ truncation_marker) \<in>
     set (fst (schedule_meet ?e (Some (ascii ''meet''))))"
    by (simp add: schedule_meet_example_long)
  with C10_never_raises [of "\<lambda>s. Inr []" "[]" "[]" ?e "Some (ascii ''meet'')"]
  show ?thesis by blast
qed

text \<open>
  C10 as stated fails: when the chain returns the empty string,
  \<open>process_schedule_request\<close> returns the empty string, and the handler sends the
  "couldn't generate a response" text instead.
\<close>

theorem C10_counterexample:
  "snd (process_schedule_request (\<lambda>s. Inr []) (build_transcript [msg_alice]) []) = Inr [] \<and>
   schedule_meet (env_example (\<lambda>s. Inr []) [msg_alice]) (Some (ascii ''meet'')) =
     ([TypingStart, HistoryFetch, LogInfo, ChainInvoke (build_transcript [msg_alice]),
       CtxSend msg_no_response], None)"
proof -
  have "build_transcript [msg_alice] \<noteq> []"
    by (simp add: build_transcript_alice ascii_def)
  then show ?thesis
    by (simp add: schedule_meet_def schedule_body_def env_example_def send_def
        process_schedule_request_def MAX_MESSAGE_LENGTH_def)
qed

end
